theory Spec2Isabelle
  imports Main
begin

unbundle bit_operations_syntax

section \<open>The ASCII-art generator: \<open>tools/ascii-art-generator/main.py\<close>\<close>

text \<open>
  The program under verification is the module body
  \<^verbatim>\<open>
  text = sys.argv[1]
  ascii_art = pyfiglet.figlet_format(text)

  print(json.dumps({"ascii_art": ascii_art}))
  \<close>
  A Python \<open>str\<close> is a sequence of Unicode code points; it is modelled as a list of
  natural numbers, each below \<open>0x110000\<close> (surrogate code points included, as in Python).
\<close>

subsection \<open>Python strings\<close>

type_synonym pystr = "nat list"

definition str_of :: "string \<Rightarrow> pystr" where
  "str_of cs = map of_char cs"

definition is_str :: "pystr \<Rightarrow> bool" where
  "is_str s = list_all (\<lambda>c. c < 0x110000) s"

subsection \<open>\<open>json.dumps\<close> with its default settings\<close>

text \<open>
  \<open>json.dumps\<close> is called with no options, so \<open>ensure_ascii\<close> is true, the separators are
  \<open>', '\<close> and \<open>': '\<close> and there is no indentation. Strings go through
  \<open>encode_basestring_ascii\<close>:
  \<^verbatim>\<open>
  ESCAPE_ASCII = re.compile(r'([\\"]|[^\ -~])')
  ESCAPE_DCT = {'\\': '\\\\', '"': '\\"', '\b': '\\b', '\f': '\\f',
                '\n': '\\n', '\r': '\\r', '\t': '\\t'}
  for i in range(0x20):
      ESCAPE_DCT.setdefault(chr(i), '\\u{0:04x}'.format(i))

  def py_encode_basestring_ascii(s):
      def replace(match):
          s = match.group(0)
          try:
              return ESCAPE_DCT[s]
          except KeyError:
              n = ord(s)
              if n < 0x10000:
                  return '\\u{0:04x}'.format(n)
              else:
                  n -= 0x10000
                  s1 = 0xd800 | ((n >> 10) & 0x3ff)
                  s2 = 0xdc00 | (n & 0x3ff)
                  return '\\u{0:04x}\\u{1:04x}'.format(s1, s2)
      return '"' + ESCAPE_ASCII.sub(replace, s) + '"'
  \<close>
\<close>

definition hexdigit :: "nat \<Rightarrow> nat" where
  "hexdigit d = str_of ''0123456789abcdef'' ! d"

fun format_x :: "nat \<Rightarrow> pystr" where
  "format_x n = (if n < 16 then [hexdigit n] else format_x (n div 16) @ [hexdigit (n mod 16)])"

declare format_x.simps [simp del]

definition format_04x :: "nat \<Rightarrow> pystr" where
  "format_04x n = replicate (4 - length (format_x n)) 0x30 @ format_x n"

definition ESCAPE_DCT :: "nat \<Rightarrow> pystr option" where
  "ESCAPE_DCT c =
     (if c = 0x5c then Some [0x5c, 0x5c]
      else if c = 0x22 then Some [0x5c, 0x22]
      else if c = 0x08 then Some [0x5c, 0x62]
      else if c = 0x0c then Some [0x5c, 0x66]
      else if c = 0x0a then Some [0x5c, 0x6e]
      else if c = 0x0d then Some [0x5c, 0x72]
      else if c = 0x09 then Some [0x5c, 0x74]
      else if c < 0x20 then Some ([0x5c, 0x75] @ format_04x c)
      else None)"

definition ESCAPE_ASCII :: "nat \<Rightarrow> bool" where
  "ESCAPE_ASCII c = (c = 0x5c \<or> c = 0x22 \<or> \<not> (0x20 \<le> c \<and> c \<le> 0x7e))"

definition replace :: "nat \<Rightarrow> pystr" where
  "replace c =
     (case ESCAPE_DCT c of
        Some e \<Rightarrow> e
      | None \<Rightarrow>
          if c < 0x10000 then [0x5c, 0x75] @ format_04x c
          else
            let n = c - 0x10000;
                s1 = 0xd800 OR (drop_bit 10 n AND 0x3ff);
                s2 = 0xdc00 OR (n AND 0x3ff)
            in [0x5c, 0x75] @ format_04x s1 @ [0x5c, 0x75] @ format_04x s2)"

definition escape_char :: "nat \<Rightarrow> pystr" where
  "escape_char c = (if ESCAPE_ASCII c then replace c else [c])"

definition py_encode_basestring_ascii :: "pystr \<Rightarrow> pystr" where
  "py_encode_basestring_ascii s = [0x22] @ concat (map escape_char s) @ [0x22]"

text \<open>
  A dictionary keeps its items in insertion order; the program only serialises a
  dictionary from strings to strings, which is the part of \<open>_iterencode_dict\<close> modelled:
  \<open>'{}'\<close> for the empty dictionary, otherwise the items \<open>key: value\<close> joined by \<open>', '\<close>
  between braces.
\<close>

type_synonym pydict = "(pystr \<times> pystr) list"

fun iterencode_items :: "pydict \<Rightarrow> pystr" where
  "iterencode_items [] = []"
| "iterencode_items [(k, v)] =
     py_encode_basestring_ascii k @ [0x3a, 0x20] @ py_encode_basestring_ascii v"
| "iterencode_items ((k, v) # kvs) =
     py_encode_basestring_ascii k @ [0x3a, 0x20] @ py_encode_basestring_ascii v
       @ [0x2c, 0x20] @ iterencode_items kvs"

definition json_dumps :: "pydict \<Rightarrow> pystr" where
  "json_dumps dct = (if dct = [] then [0x7b, 0x7d] else [0x7b] @ iterencode_items dct @ [0x7d])"

subsection \<open>The process and the module body\<close>

text \<open>
  What the operating system hands to the process: the argument vector (\<open>sys.argv\<close>, the
  script name first) and the environment. The module body reads only the former; the
  interpreter reads the latter when it sets up the standard streams. The renderer \<open>pyfiglet.figlet_format\<close> is an
  external library: it is a parameter \<open>render\<close> that either returns a string or raises.
\<close>

record invocation =
  argv :: "pystr list"
  environ :: "pystr \<rightharpoonup> pystr"

datatype 'e exn = IndexError | NameError | RenderingFault 'e

text \<open>
  The interpreter state: the two module-level variables (unbound at the start), what has
  been written to standard output, the exception that is propagating (if any), and a
  log of the arguments the external renderer has been called with.
\<close>

record 'e state =
  text_var :: "pystr option"
  ascii_art_var :: "pystr option"
  stdout :: pystr
  raised :: "'e exn option"
  render_calls :: "pystr list"

definition initial :: "'e state" where
  "initial = \<lparr>text_var = None, ascii_art_var = None, stdout = [], raised = None,
              render_calls = []\<rparr>"

text \<open>\<open>text = sys.argv[1]\<close>: list indexing raises \<open>IndexError\<close> out of range.\<close>

definition assign_text :: "invocation \<Rightarrow> 'e state \<Rightarrow> 'e state" where
  "assign_text iv st =
     (if 1 < length (argv iv) then st\<lparr>text_var := Some (argv iv ! 1)\<rparr>
      else st\<lparr>raised := Some IndexError\<rparr>)"

text \<open>\<open>ascii_art = pyfiglet.figlet_format(text)\<close>.\<close>

definition assign_ascii_art :: "(pystr \<Rightarrow> 'e + pystr) \<Rightarrow> 'e state \<Rightarrow> 'e state" where
  "assign_ascii_art render st =
     (case text_var st of
        None \<Rightarrow> st\<lparr>raised := Some NameError\<rparr>
      | Some t \<Rightarrow>
          (case render t of
             Inl e \<Rightarrow> st\<lparr>raised := Some (RenderingFault e), render_calls := render_calls st @ [t]\<rparr>
           | Inr a \<Rightarrow> st\<lparr>ascii_art_var := Some a, render_calls := render_calls st @ [t]\<rparr>))"

text \<open>\<open>print(x)\<close> writes the string and a newline.\<close>

definition print :: "pystr \<Rightarrow> 'e state \<Rightarrow> 'e state" where
  "print x st = st\<lparr>stdout := stdout st @ x @ [0x0a]\<rparr>"

text \<open>\<open>print(json.dumps({"ascii_art": ascii_art}))\<close>.\<close>

definition print_json :: "'e state \<Rightarrow> 'e state" where
  "print_json st =
     (case ascii_art_var st of
        None \<Rightarrow> st\<lparr>raised := Some NameError\<rparr>
      | Some a \<Rightarrow> print (json_dumps [(str_of ''ascii_art'', a)]) st)"

text \<open>Statements run in sequence; a raised exception skips the rest of the module.\<close>

definition seq :: "('e state \<Rightarrow> 'e state) \<Rightarrow> ('e state \<Rightarrow> 'e state) \<Rightarrow> 'e state \<Rightarrow> 'e state" where
  "seq f g st = (let st' = f st in if raised st' = None then g st' else st')"

definition main :: "(pystr \<Rightarrow> 'e + pystr) \<Rightarrow> invocation \<Rightarrow> 'e state" where
  "main render iv = seq (assign_text iv) (seq (assign_ascii_art render) print_json) initial"

text \<open>The interpreter exits with status 0, or with status 1 after an uncaught exception.\<close>

definition exit_status :: "'e state \<Rightarrow> nat" where
  "exit_status st = (if raised st = None then 0 else 1)"


subsection \<open>Reading a document back: \<open>json.loads\<close>\<close>

text \<open>
  The claims speak of the output as JSON that parses. The reader meant is Python's
  own \<open>json.loads\<close> with its default (strict) settings, modelled here for the documents
  that matter: one object whose members are strings. \<open>None\<close> stands for a
  \<open>JSONDecodeError\<close>, or for a document outside this fragment.
  \<^verbatim>\<open>
  BACKSLASH = {'"': '"', '\\': '\\', '/': '/',
               'b': '\b', 'f': '\f', 'n': '\n', 'r': '\r', 't': '\t'}

  def py_scanstring(s, end, strict=True):
      chunks = []
      while 1:
          chunk = STRINGCHUNK.match(s, end)       # r'(.*?)(["\\\x00-\x1f])'
          if chunk is None: raise JSONDecodeError(...)
          end = chunk.end()
          content, terminator = chunk.groups()
          if content: chunks.append(content)
          if terminator == '"': break
          elif terminator != '\\': raise JSONDecodeError(...)
          try: esc = s[end]
          except IndexError: raise JSONDecodeError(...)
          if esc != 'u':
              try: char = BACKSLASH[esc]
              except KeyError: raise JSONDecodeError(...)
              end += 1
          else:
              uni = _decode_uXXXX(s, end)
              end += 5
              if 0xd800 <= uni <= 0xdbff and s[end:end + 2] == '\\u':
                  uni2 = _decode_uXXXX(s, end + 1)
                  if 0xdc00 <= uni2 <= 0xdfff:
                      uni = 0x10000 + (((uni - 0xd800) << 10) | (uni2 - 0xdc00))
                      end += 6
              char = chr(uni)
          chunks.append(char)
      return ''.join(chunks), end
  \<close>
  The four characters of a \<open>\uXXXX\<close> escape must be hexadecimal digits, in either case.
\<close>

definition hexval :: "nat \<Rightarrow> nat option" where
  "hexval c =
     (if 0x30 \<le> c \<and> c \<le> 0x39 then Some (c - 0x30)
      else if 0x61 \<le> c \<and> c \<le> 0x66 then Some (c - 0x61 + 10)
      else if 0x41 \<le> c \<and> c \<le> 0x46 then Some (c - 0x41 + 10)
      else None)"

fun int16 :: "pystr \<Rightarrow> nat option" where
  "int16 [] = None"
| "int16 [c] = hexval c"
| "int16 cs = (case (int16 (butlast cs), hexval (last cs)) of
                 (Some hi, Some lo) \<Rightarrow> Some (16 * hi + lo)
               | _ \<Rightarrow> None)"

definition decode_uXXXX :: "pystr \<Rightarrow> nat option" where
  "decode_uXXXX s = (let esc = take 4 s in if length esc = 4 then int16 esc else None)"

definition BACKSLASH :: "nat \<Rightarrow> nat option" where
  "BACKSLASH c =
     (if c = 0x22 then Some 0x22
      else if c = 0x5c then Some 0x5c
      else if c = 0x2f then Some 0x2f
      else if c = 0x62 then Some 0x08
      else if c = 0x66 then Some 0x0c
      else if c = 0x6e then Some 0x0a
      else if c = 0x72 then Some 0x0d
      else if c = 0x74 then Some 0x09
      else None)"

definition append_chunk :: "nat \<Rightarrow> (pystr \<times> pystr) option \<Rightarrow> (pystr \<times> pystr) option" where
  "append_chunk ch r = (case r of None \<Rightarrow> None | Some (s, rest) \<Rightarrow> Some (ch # s, rest))"

text \<open>
  \<open>scanstring\<close> starts after the opening quote and returns the decoded string with the
  text that follows the closing quote.
\<close>

fun scanstring :: "pystr \<Rightarrow> (pystr \<times> pystr) option" where
  "scanstring [] = None"
| "scanstring (c # cs) =
     (if c = 0x22 then Some ([], cs)
      else if c = 0x5c then
        (case cs of
           [] \<Rightarrow> None
         | esc # es \<Rightarrow>
             if esc \<noteq> 0x75 then
               (case BACKSLASH esc of
                  None \<Rightarrow> None
                | Some ch \<Rightarrow> append_chunk ch (scanstring es))
             else
               (case decode_uXXXX es of
                  None \<Rightarrow> None
                | Some uni \<Rightarrow>
                    if 0xd800 \<le> uni \<and> uni \<le> 0xdbff \<and> take 2 (drop 4 es) = [0x5c, 0x75] then
                      (case decode_uXXXX (drop 6 es) of
                         None \<Rightarrow> None
                       | Some uni2 \<Rightarrow>
                           if 0xdc00 \<le> uni2 \<and> uni2 \<le> 0xdfff then
                             append_chunk (0x10000 + (push_bit 10 (uni - 0xd800) OR (uni2 - 0xdc00)))
                               (scanstring (drop 10 es))
                           else append_chunk uni (scanstring (drop 4 es)))
                    else append_chunk uni (scanstring (drop 4 es))))
      else if c < 0x20 then None
      else append_chunk c (scanstring cs))"

text \<open>
  Between tokens the decoder skips \<open>WHITESPACE = r'[ \t\n\r]*'\<close>. An object is \<open>{}\<close> or
  a sequence of \<open>"key": "value"\<close> members separated by commas; the pairs then go through
  \<open>dict(pairs)\<close>, where a repeated key keeps its first position and its last value.
\<close>

definition WHITESPACE :: "pystr \<Rightarrow> pystr" where
  "WHITESPACE s = dropWhile (\<lambda>c. c = 0x20 \<or> c = 0x09 \<or> c = 0x0a \<or> c = 0x0d) s"

definition expect :: "nat \<Rightarrow> pystr \<Rightarrow> pystr option" where
  "expect ch s = (case WHITESPACE s of [] \<Rightarrow> None | c # r \<Rightarrow> if c = ch then Some r else None)"

function members :: "pystr \<Rightarrow> ((pystr \<times> pystr) list \<times> pystr) option" where
  "members s =
     (case scanstring s of
        None \<Rightarrow> None
      | Some (key, r1) \<Rightarrow>
          (case expect 0x3a r1 of
             None \<Rightarrow> None
           | Some r2 \<Rightarrow>
               (case expect 0x22 r2 of
                  None \<Rightarrow> None
                | Some r3 \<Rightarrow>
                    (case scanstring r3 of
                       None \<Rightarrow> None
                     | Some (val, r4) \<Rightarrow>
                         (case WHITESPACE r4 of
                            [] \<Rightarrow> None
                          | c # r5 \<Rightarrow>
                              if c = 0x7d then Some ([(key, val)], r5)
                              else if c = 0x2c then
                                (case expect 0x22 r5 of
                                   None \<Rightarrow> None
                                 | Some r6 \<Rightarrow>
                                     (case members r6 of
                                        None \<Rightarrow> None
                                      | Some (ps, r7) \<Rightarrow> Some ((key, val) # ps, r7)))
                              else None)))))"
  by pat_completeness auto
termination
proof (relation "measure length")
  show "wf (measure length)" by simp
next
  fix s :: pystr and x2 key r1 r2 r3 x2a val r4 c r5 r6
  assume a: "scanstring s = Some x2" "(key, r1) = x2" "expect 0x3a r1 = Some r2"
    "expect 0x22 r2 = Some r3" "scanstring r3 = Some x2a" "(val, r4) = x2a"
    "WHITESPACE r4 = c # r5" "expect 0x22 r5 = Some r6"
  have ac: "\<exists>v'. r = Some (v', q)" if "append_chunk ch r = Some (v, q)" for ch r v q
    using that by (auto simp: append_chunk_def split: option.splits)
  have sc: "length r \<le> length t" if "scanstring t = Some (v, r)" for t v r
    using that
  proof (induction "length t" arbitrary: t v r rule: less_induct)
    case less
    have step: "length r \<le> length t"
      if "t \<noteq> []" and "append_chunk ch (scanstring (drop (Suc k) t)) = Some (v, r)" for ch k
    proof -
      from that obtain v' where "scanstring (drop (Suc k) t) = Some (v', r)"
        using ac by blast
      moreover from that have "length (drop (Suc k) t) < length t" by (cases t) auto
      ultimately have "length r \<le> length (drop (Suc k) t)" using less.hyps by blast
      then show ?thesis by simp
    qed
    show ?case
    proof (cases t)
      case Nil
      with less.prems show ?thesis by simp
    next
      case t: (Cons c cs)
      show ?thesis
      proof (cases "c = 0x22")
        case True
        with less.prems t show ?thesis by simp
      next
        case q: False
        show ?thesis
        proof (cases "c = 0x5c")
          case False
          with q less.prems t have "append_chunk c (scanstring (drop (Suc 0) t)) = Some (v, r)"
            by (simp split: if_splits)
          then show ?thesis using step [of c 0] t by simp
        next
          case True
          with less.prems t obtain esc es where cs: "cs = esc # es"
            by (cases cs) auto
          show ?thesis
          proof (cases "esc = 0x75")
            case False
            with less.prems t cs True obtain ch where
              "append_chunk ch (scanstring (drop (Suc 1) t)) = Some (v, r)"
              by (auto split: option.splits)
            then show ?thesis using step [of ch 1] t cs by simp
          next
            case u: True
            with less.prems t cs True obtain ch where
              "append_chunk ch (scanstring (drop (Suc 5) t)) = Some (v, r)
               \<or> append_chunk ch (scanstring (drop (Suc 11) t)) = Some (v, r)"
              by (simp split: option.splits if_splits) blast+
            then show ?thesis using step [of ch 5] step [of ch 11] t by blast
          qed
        qed
      qed
    qed
  qed
  have ws: "length (WHITESPACE t) \<le> length t" for t
    by (simp add: WHITESPACE_def length_dropWhile_le)
  have ex: "length r < length t" if "expect ch t = Some r" for ch t r
  proof -
    from that have "WHITESPACE t = ch # r"
      by (auto simp: expect_def split: list.splits if_splits)
    with ws [of t] show ?thesis by simp
  qed
  from a have "length r1 \<le> length s" "length r4 \<le> length r3" using sc by metis+
  moreover from a have "length r2 < length r1" "length r3 < length r2" "length r6 < length r5"
    using ex by blast+
  moreover from a ws [of r4] have "length r5 < length r4" by simp
  ultimately show "(r6, s) \<in> measure length" by simp
qed

declare members.simps [simp del]

definition JSONObject :: "pystr \<Rightarrow> ((pystr \<times> pystr) list \<times> pystr) option" where
  "JSONObject s =
     (case WHITESPACE s of
        [] \<Rightarrow> None
      | c # r \<Rightarrow> if c = 0x7d then Some ([], r) else if c = 0x22 then members r else None)"

fun dict_setitem :: "pydict \<Rightarrow> pystr \<times> pystr \<Rightarrow> pydict" where
  "dict_setitem [] (k, v) = [(k, v)]"
| "dict_setitem ((k', v') # d) (k, v) =
     (if k' = k then (k', v) # d else (k', v') # dict_setitem d (k, v))"

definition dict_of_pairs :: "(pystr \<times> pystr) list \<Rightarrow> pydict" where
  "dict_of_pairs pairs = foldl dict_setitem [] pairs"

definition json_loads :: "pystr \<Rightarrow> pydict option" where
  "json_loads doc =
     (case WHITESPACE doc of
        [] \<Rightarrow> None
      | c # r \<Rightarrow>
          if c = 0x7b then
            (case JSONObject r of
               None \<Rightarrow> None
             | Some (pairs, rest) \<Rightarrow>
                 if WHITESPACE rest = [] then Some (dict_of_pairs pairs) else None)
          else None)"

text \<open>
  The encoder writes a code point above \<open>0xffff\<close> as a pair of surrogate escapes, and it
  writes a lone surrogate as its own escape; the decoder joins a high surrogate escape
  with a low one that follows it. So what the decoder returns for an encoded string is
  the string with each adjacent (high, low) surrogate pair joined into one code point.
  A string with no surrogate code points is returned unchanged.
\<close>

definition high_surrogate :: "nat \<Rightarrow> bool" where
  "high_surrogate c = (0xd800 \<le> c \<and> c \<le> 0xdbff)"

definition low_surrogate :: "nat \<Rightarrow> bool" where
  "low_surrogate c = (0xdc00 \<le> c \<and> c \<le> 0xdfff)"

fun join_surrogates :: "pystr \<Rightarrow> pystr" where
  "join_surrogates (a # b # cs) =
     (if high_surrogate a \<and> low_surrogate b
      then (0x10000 + (a - 0xd800) * 0x400 + (b - 0xdc00)) # join_surrogates cs
      else a # join_surrogates (b # cs))"
| "join_surrogates cs = cs"

definition no_surrogates :: "pystr \<Rightarrow> bool" where
  "no_surrogates s = list_all (\<lambda>c. \<not> high_surrogate c \<and> \<not> low_surrogate c) s"

subsection \<open>The specification's reference function\<close>

text \<open>
  The specification describes the program as the composition
  \<open>print(serialize({"ascii_art": render(argv[1])}))\<close>, a fault of the renderer being
  propagated with nothing printed. Written down directly, as what is observed of one run
  on the argument \<open>s\<close>: the text on standard output, the exit status, and the calls made
  to the renderer.
\<close>

definition serialize :: "pystr \<Rightarrow> pystr" where
  "serialize art =
     str_of ''{'' @ py_encode_basestring_ascii (str_of ''ascii_art'') @ str_of '': ''
       @ py_encode_basestring_ascii art @ str_of ''}''"

definition reference :: "(pystr \<Rightarrow> 'e + pystr) \<Rightarrow> pystr \<Rightarrow> pystr \<times> nat \<times> pystr list" where
  "reference render s =
     (case render s of
        Inl e \<Rightarrow> ([], 1, [s])
      | Inr art \<Rightarrow> (serialize art @ [0x0a], 0, [s]))"

definition observed :: "'e state \<Rightarrow> pystr \<times> nat \<times> pystr list" where
  "observed st = (stdout st, exit_status st, render_calls st)"

subsection \<open>The bytes on standard output\<close>










section \<open>Properties\<close>

subsection \<open>The three ways a run can go\<close>

lemma main_no_argument:
  "length (argv iv) \<le> 1 \<Longrightarrow> main render iv = initial\<lparr>raised := Some IndexError\<rparr>"
  by (simp add: main_def seq_def assign_text_def Let_def)

lemma main_render_fault:
  "1 < length (argv iv) \<Longrightarrow> render (argv iv ! 1) = Inl e \<Longrightarrow>
   main render iv = initial\<lparr>text_var := Some (argv iv ! 1), raised := Some (RenderingFault e),
                             render_calls := [argv iv ! 1]\<rparr>"
  by (simp add: main_def seq_def assign_text_def assign_ascii_art_def Let_def initial_def)

lemma main_success:
  "1 < length (argv iv) \<Longrightarrow> render (argv iv ! 1) = Inr art \<Longrightarrow>
   main render iv = initial\<lparr>text_var := Some (argv iv ! 1), ascii_art_var := Some art,
                             stdout := json_dumps [(str_of ''ascii_art'', art)] @ [0x0a],
                             render_calls := [argv iv ! 1]\<rparr>"
  by (simp add: main_def seq_def assign_text_def assign_ascii_art_def print_json_def print_def
      Let_def initial_def)

text \<open>
  C2. With no command-line argument (\<open>sys.argv\<close> holds the script name only), reading
  \<open>sys.argv[1]\<close> raises \<open>IndexError\<close>; the exception is not caught, so the exit status is
  not zero, nothing has been written to standard output, and the renderer is never
  called.
\<close>

theorem no_argument_fails:
  "length (argv iv) \<le> 1 \<Longrightarrow>
     raised (main render iv) = Some IndexError \<and> exit_status (main render iv) \<noteq> 0 \<and>
     stdout (main render iv) = [] \<and> render_calls (main render iv) = []"
  by (simp add: main_no_argument exit_status_def initial_def)

theorem no_argument_fails_witness:
  "length (argv \<lparr>argv = [str_of ''main.py''], environ = Map.empty\<rparr>) \<le> 1 \<and>
   raised (main (\<lambda>s. Inr s :: unit + pystr) \<lparr>argv = [str_of ''main.py''], environ = Map.empty\<rparr>)
     = Some IndexError \<and>
   exit_status (main (\<lambda>s. Inr s :: unit + pystr) \<lparr>argv = [str_of ''main.py''], environ = Map.empty\<rparr>) = 1 \<and>
   stdout (main (\<lambda>s. Inr s :: unit + pystr) \<lparr>argv = [str_of ''main.py''], environ = Map.empty\<rparr>) = []"
  using no_argument_fails [of "\<lparr>argv = [str_of ''main.py''], environ = Map.empty\<rparr>" "\<lambda>s. Inr s :: unit + pystr"]
  by (simp add: exit_status_def)

subsection \<open>Hexadecimal escapes\<close>

lemma hexdigit_cases:
  assumes "d < 16"
  shows "hexdigit d = (if d < 10 then 0x30 + d else 0x61 + (d - 10))"
proof -
  from assms have "d = 0 \<or> d = 1 \<or> d = 2 \<or> d = 3 \<or> d = 4 \<or> d = 5 \<or> d = 6 \<or> d = 7 \<or> d = 8
      \<or> d = 9 \<or> d = 10 \<or> d = 11 \<or> d = 12 \<or> d = 13 \<or> d = 14 \<or> d = 15"
    by arith
  then show ?thesis
    by (elim disjE) (simp_all add: hexdigit_def str_of_def)
qed

lemma hexval_hexdigit: "d < 16 \<Longrightarrow> hexval (hexdigit d) = Some d"
  by (simp add: hexdigit_cases hexval_def)



lemma format_x_small: "n < 16 \<Longrightarrow> format_x n = [hexdigit n]"
  by (simp add: format_x.simps [of n])

lemma format_x_large: "16 \<le> n \<Longrightarrow> format_x n = format_x (n div 16) @ [hexdigit (n mod 16)]"
  by (simp add: format_x.simps [of n])

lemma format_x_4:
  assumes "n < 0x10000"
  shows "replicate (4 - length (format_x n)) 0x30 @ format_x n =
         [hexdigit (n div 4096), hexdigit (n div 256 mod 16), hexdigit (n div 16 mod 16),
          hexdigit (n mod 16)]"
proof -
  have h0: "hexdigit 0 = 0x30" by (simp add: hexdigit_def str_of_def)
  have r3: "replicate 3 x = [x, x, x]" for x :: nat by (simp add: numeral_3_eq_3)
  have r2: "replicate 2 x = [x, x]" for x :: nat by (simp add: numeral_2_eq_2)
  have d2: "n div 16 div 16 = n div 256" by (simp add: div_mult2_eq [symmetric])
  have d3: "n div 256 div 16 = n div 4096" by (simp add: div_mult2_eq [symmetric])
  consider "n < 16" | "16 \<le> n" "n < 256" | "256 \<le> n" "n < 4096" | "4096 \<le> n" by linarith
  then show ?thesis
  proof cases
    case 1
    then show ?thesis by (simp add: format_x_small h0 r3)
  next
    case 2
    then have "n div 16 < 16" "n div 256 = 0" "n div 4096 = 0" by simp_all
    with 2 show ?thesis
      by (simp add: format_x_large [of n] format_x_small [of "n div 16"] h0 r2)
  next
    case 3
    then have a: "16 \<le> n" "16 \<le> n div 16" "n div 256 < 16" "n div 4096 = 0" by simp_all
    have "format_x n = [hexdigit (n div 256), hexdigit (n div 16 mod 16), hexdigit (n mod 16)]"
      using a by (simp add: format_x_large [of n] format_x_large [of "n div 16"]
          format_x_small [of "n div 256"] d2)
    with a show ?thesis by (simp add: h0)
  next
    case 4
    with assms have a: "16 \<le> n" "16 \<le> n div 16" "16 \<le> n div 256" "n div 4096 < 16"
      by simp_all
    have "format_x n = [hexdigit (n div 4096), hexdigit (n div 256 mod 16),
        hexdigit (n div 16 mod 16), hexdigit (n mod 16)]"
      using a by (simp add: format_x_large [of n] format_x_large [of "n div 16"]
          format_x_large [of "n div 256"] format_x_small [of "n div 4096"] d2 d3)
    then show ?thesis by simp
  qed
qed

lemma format_04x_4:
  "n < 0x10000 \<Longrightarrow> format_04x n =
     [hexdigit (n div 4096), hexdigit (n div 256 mod 16), hexdigit (n div 16 mod 16),
      hexdigit (n mod 16)]"
  by (simp add: format_04x_def format_x_4)


lemma int16_4:
  "int16 [a, b, c, d] =
     (case (hexval a, hexval b, hexval c, hexval d) of
        (Some x3, Some x2, Some x1, Some x0) \<Rightarrow> Some (16 * (16 * (16 * x3 + x2) + x1) + x0)
      | _ \<Rightarrow> None)"
  by (simp split: option.splits)

lemma hex_digits_sum:
  fixes n :: nat
  shows "16 * (16 * (16 * (n div 4096) + n div 256 mod 16) + n div 16 mod 16) + n mod 16 = n"
proof -
  have a: "n div 16 div 16 = n div 256" by (simp add: div_mult2_eq [symmetric])
  have b: "n div 256 div 16 = n div 4096" by (simp add: div_mult2_eq [symmetric])
  have "16 * (n div 4096) + n div 256 mod 16 = n div 256"
    using div_mult_mod_eq [of "n div 256" 16] b by simp
  moreover have "16 * (n div 256) + n div 16 mod 16 = n div 16"
    using div_mult_mod_eq [of "n div 16" 16] a by simp
  moreover have "16 * (n div 16) + n mod 16 = n"
    using div_mult_mod_eq [of n 16] by simp
  ultimately show ?thesis by simp
qed

lemma decode_format_04x:
  assumes "n < 0x10000"
  shows "decode_uXXXX (format_04x n @ rest) = Some n"
proof -
  have d: "n div 4096 < 16"
    using assms by simp
  have "int16 [hexdigit (n div 4096), hexdigit (n div 256 mod 16), hexdigit (n div 16 mod 16),
      hexdigit (n mod 16)] = Some n"
    unfolding int16_4 using d hex_digits_sum [of n] by (simp add: hexval_hexdigit)
  then show ?thesis
    by (simp add: decode_uXXXX_def format_04x_4 [OF assms])
qed

subsection \<open>Surrogate arithmetic\<close>

lemma or_low_bits:
  fixes x y :: nat
  assumes "y < 2 ^ k"
  shows "push_bit k x OR y = x * 2 ^ k + y"
proof -
  have y: "take_bit k y = y" using assms by (simp add: take_bit_nat_eq_self)
  have "push_bit k x AND take_bit k y = 0"
    by (auto simp: bit_eq_iff bit_simps)
  then have "push_bit k x + take_bit k y = push_bit k x OR take_bit k y"
    by (rule disjunctive_add_eq_or)
  then show ?thesis by (simp add: y push_bit_eq_mult)
qed

lemma and_3ff: "(n::nat) AND 0x3ff = n mod 1024"
proof -
  have "(0x3ff::nat) = mask 10" by (simp add: mask_eq_exp_minus_1)
  then have "n AND 0x3ff = take_bit 10 n" by (simp add: take_bit_eq_mask)
  then show ?thesis by (simp add: take_bit_eq_mod)
qed

lemma high_or: "m < 1024 \<Longrightarrow> (0xd800::nat) OR m = 0xd800 + m"
  using or_low_bits [of m 10 54] by (simp add: push_bit_eq_mult)

lemma low_or: "m < 1024 \<Longrightarrow> (0xdc00::nat) OR m = 0xdc00 + m"
  using or_low_bits [of m 10 55] by (simp add: push_bit_eq_mult)

lemma s1_eq: "(0xd800::nat) OR (drop_bit 10 n AND 0x3ff) = 0xd800 + n div 1024 mod 1024"
  by (simp add: and_3ff high_or drop_bit_eq_div)

lemma s2_eq: "(0xdc00::nat) OR (n AND 0x3ff) = 0xdc00 + n mod 1024"
  by (simp add: and_3ff low_or)

lemma joined_eq:
  "y < 1024 \<Longrightarrow> 0x10000 + (push_bit 10 x OR y) = 0x10000 + x * 0x400 + (y::nat)"
  using or_low_bits [of y 10 x] by simp

subsection \<open>One step of the string scanner\<close>

declare scanstring.simps [simp del]

lemma length_format_04x: "n < 0x10000 \<Longrightarrow> length (format_04x n) = 4"
  by (simp add: format_04x_4)

lemma scan_quote: "scanstring (0x22 # rest) = Some ([], rest)"
  by (simp add: scanstring.simps)

lemma scan_plain:
  "0x20 \<le> c \<Longrightarrow> c \<noteq> 0x22 \<Longrightarrow> c \<noteq> 0x5c \<Longrightarrow>
   scanstring (c # rest) = append_chunk c (scanstring rest)"
  by (simp add: scanstring.simps)

lemma scan_short:
  "e \<noteq> 0x75 \<Longrightarrow> BACKSLASH e = Some ch \<Longrightarrow>
   scanstring (0x5c # e # rest) = append_chunk ch (scanstring rest)"
  by (simp add: scanstring.simps)

lemma scan_u:
  "decode_uXXXX es = Some uni \<Longrightarrow>
   scanstring (0x5c # 0x75 # es) =
     (if high_surrogate uni \<and> take 2 (drop 4 es) = [0x5c, 0x75] then
        (case decode_uXXXX (drop 6 es) of
           None \<Rightarrow> None
         | Some uni2 \<Rightarrow>
             if low_surrogate uni2 then
               append_chunk (0x10000 + (push_bit 10 (uni - 0xd800) OR (uni2 - 0xdc00)))
                 (scanstring (drop 10 es))
             else append_chunk uni (scanstring (drop 4 es)))
      else append_chunk uni (scanstring (drop 4 es)))"
  by (simp add: scanstring.simps high_surrogate_def low_surrogate_def cong: option.case_cong)

lemma scan_u_format:
  assumes "n < 0x10000"
  shows "scanstring (0x5c # 0x75 # format_04x n @ R) =
     (if high_surrogate n \<and> take 2 R = [0x5c, 0x75] then
        (case decode_uXXXX (drop 2 R) of
           None \<Rightarrow> None
         | Some uni2 \<Rightarrow>
             if low_surrogate uni2 then
               append_chunk (0x10000 + (push_bit 10 (n - 0xd800) OR (uni2 - 0xdc00)))
                 (scanstring (drop 6 R))
             else append_chunk n (scanstring R))
      else append_chunk n (scanstring R))"
proof -
  have l: "length (format_04x n) = 4" using assms by (rule length_format_04x)
  have d: "drop 4 (format_04x n @ R) = R" "drop 6 (format_04x n @ R) = drop 2 R"
    "drop 10 (format_04x n @ R) = drop 6 R"
    using l by simp_all
  show ?thesis
    by (simp only: scan_u [OF decode_format_04x [OF assms, of R]] d)
qed

subsection \<open>The shapes of an escaped character\<close>

lemma escape_plain:
  "0x20 \<le> c \<Longrightarrow> c \<le> 0x7e \<Longrightarrow> c \<noteq> 0x22 \<Longrightarrow> c \<noteq> 0x5c \<Longrightarrow> escape_char c = [c]"
  by (simp add: escape_char_def ESCAPE_ASCII_def)

lemma escape_short:
  assumes "c = 0x5c \<or> c = 0x22 \<or> c = 0x08 \<or> c = 0x0c \<or> c = 0x0a \<or> c = 0x0d \<or> c = 0x09"
  shows "\<exists>e. escape_char c = [0x5c, e] \<and> e \<noteq> 0x75 \<and> BACKSLASH e = Some c"
  using assms
  by (elim disjE) (simp_all add: escape_char_def ESCAPE_ASCII_def replace_def ESCAPE_DCT_def
      BACKSLASH_def)

lemma escape_u:
  assumes "c < 0x10000" "c < 0x20 \<or> 0x7e < c"
    "c \<noteq> 0x08" "c \<noteq> 0x0c" "c \<noteq> 0x0a" "c \<noteq> 0x0d" "c \<noteq> 0x09"
  shows "escape_char c = [0x5c, 0x75] @ format_04x c"
  using assms
  by (auto simp: escape_char_def ESCAPE_ASCII_def replace_def ESCAPE_DCT_def)

lemma escape_pair:
  assumes "0x10000 \<le> c"
  shows "escape_char c =
    [0x5c, 0x75] @ format_04x (0xd800 + (c - 0x10000) div 1024 mod 1024) @
    [0x5c, 0x75] @ format_04x (0xdc00 + (c - 0x10000) mod 1024)"
  using assms
  by (simp add: escape_char_def ESCAPE_ASCII_def replace_def ESCAPE_DCT_def Let_def s1_eq s2_eq)

lemma escape_cases [case_names plain short u pair]:
  obtains
    (plain) "escape_char c = [c]" "0x20 \<le> c" "c \<le> 0x7e" "c \<noteq> 0x22" "c \<noteq> 0x5c"
  | (short) e where "escape_char c = [0x5c, e]" "e \<noteq> 0x75" "BACKSLASH e = Some c" "c \<le> 0x7e"
  | (u) "escape_char c = [0x5c, 0x75] @ format_04x c" "c < 0x10000"
  | (pair) "escape_char c =
      [0x5c, 0x75] @ format_04x (0xd800 + (c - 0x10000) div 1024 mod 1024) @
      [0x5c, 0x75] @ format_04x (0xdc00 + (c - 0x10000) mod 1024)" "0x10000 \<le> c"
proof -
  consider
    (a) "c = 0x5c \<or> c = 0x22 \<or> c = 0x08 \<or> c = 0x0c \<or> c = 0x0a \<or> c = 0x0d \<or> c = 0x09"
    | (b) "0x20 \<le> c" "c \<le> 0x7e" "c \<noteq> 0x22" "c \<noteq> 0x5c"
    | (c) "c < 0x10000" "c < 0x20 \<or> 0x7e < c"
          "c \<noteq> 0x08" "c \<noteq> 0x0c" "c \<noteq> 0x0a" "c \<noteq> 0x0d" "c \<noteq> 0x09"
    | (d) "0x10000 \<le> c"
    by linarith
  then show thesis
  proof cases
    case a
    from escape_short [OF a] obtain e where
      "escape_char c = [0x5c, e]" "e \<noteq> 0x75" "BACKSLASH e = Some c" by blast
    moreover from a have "c \<le> 0x7e" by auto
    ultimately show thesis by (rule short)
  next
    case b
    then show thesis using escape_plain [of c] plain by blast
  next
    case c
    then show thesis using escape_u [of c] u by blast
  next
    case d
    then show thesis using escape_pair [of c] pair by blast
  qed
qed

subsection \<open>Scanning what the encoder wrote\<close>

lemma rejoin_pair:
  assumes "n < 0x100000"
  shows "0x10000 + (push_bit 10 (0xd800 + n div 1024 mod 1024 - 0xd800)
           OR (0xdc00 + n mod 1024 - 0xdc00)) = 0x10000 + (n::nat)"
proof -
  from assms have "n div 1024 < 1024" by simp
  then have "n div 1024 mod 1024 = n div 1024" by simp
  moreover have "n div 1024 * 1024 + n mod 1024 = n" by simp
  ultimately show ?thesis
    using joined_eq [of "n mod 1024" "n div 1024"] by simp
qed

lemma scan_one:
  assumes a: "a < 0x110000"
    and safe: "high_surrogate a \<Longrightarrow>
      take 2 R \<noteq> [0x5c, 0x75] \<or> (\<exists>m. decode_uXXXX (drop 2 R) = Some m \<and> \<not> low_surrogate m)"
  shows "scanstring (escape_char a @ R) = append_chunk a (scanstring R)"
proof (cases a rule: escape_cases)
  case plain
  then show ?thesis by (simp add: scan_plain)
next
  case (short e)
  then show ?thesis by (simp add: scan_short)
next
  case u
  show ?thesis
  proof (cases "high_surrogate a \<and> take 2 R = [0x5c, 0x75]")
    case False
    then show ?thesis using u by (auto simp: scan_u_format)
  next
    case True
    with safe obtain m where "decode_uXXXX (drop 2 R) = Some m" "\<not> low_surrogate m" by blast
    with True show ?thesis using u by (simp add: scan_u_format)
  qed
next
  case pair
  define n where "n = a - 0x10000"
  define s1 where "s1 = 0xd800 + n div 1024 mod 1024"
  define s2 where "s2 = 0xdc00 + n mod 1024"
  have n: "n < 0x100000" "a = 0x10000 + n" using a pair by (simp_all add: n_def)
  have s1: "s1 < 0x10000" "high_surrogate s1"
    by (simp_all add: s1_def high_surrogate_def)
  have s2: "s2 < 0x10000" "low_surrogate s2"
    by (simp_all add: s2_def low_surrogate_def)
  have e: "escape_char a @ R = 0x5c # 0x75 # format_04x s1 @ (0x5c # 0x75 # format_04x s2 @ R)"
    using pair by (simp add: s1_def s2_def n_def)
  have l2: "length (format_04x s2) = 4" using s2 by (simp add: length_format_04x)
  have "scanstring (escape_char a @ R) =
      append_chunk (0x10000 + (push_bit 10 (s1 - 0xd800) OR (s2 - 0xdc00))) (scanstring R)"
    unfolding e scan_u_format [OF s1(1)]
    using s1 s2 l2 by (simp add: decode_format_04x)
  moreover have "0x10000 + (push_bit 10 (s1 - 0xd800) OR (s2 - 0xdc00)) = a"
    unfolding s1_def s2_def using rejoin_pair [OF n(1)] n(2) by simp
  ultimately show ?thesis by simp
qed

lemma surrogate_escape:
  "high_surrogate c \<or> low_surrogate c \<Longrightarrow> escape_char c = [0x5c, 0x75] @ format_04x c \<and> c < 0x10000"
  by (cases c rule: escape_cases) (auto simp: high_surrogate_def low_surrogate_def)

lemma scan_pair:
  assumes "high_surrogate a" "low_surrogate b"
  shows "scanstring (escape_char a @ escape_char b @ R) =
    append_chunk (0x10000 + (a - 0xd800) * 0x400 + (b - 0xdc00)) (scanstring R)"
proof -
  from assms have ea: "escape_char a = [0x5c, 0x75] @ format_04x a" "a < 0x10000"
    and eb: "escape_char b = [0x5c, 0x75] @ format_04x b" "b < 0x10000"
    using surrogate_escape by blast+
  have lb: "length (format_04x b) = 4" using eb by (simp add: length_format_04x)
  have "b - 0xdc00 < 1024" using assms unfolding low_surrogate_def by linarith
  then have j: "0x10000 + (push_bit 10 (a - 0xd800) OR (b - 0xdc00))
      = 0x10000 + (a - 0xd800) * 0x400 + (b - 0xdc00)"
    by (rule joined_eq)
  have "scanstring (0x5c # 0x75 # format_04x a @ (0x5c # 0x75 # format_04x b @ R)) =
    append_chunk (0x10000 + (push_bit 10 (a - 0xd800) OR (b - 0xdc00))) (scanstring R)"
    unfolding scan_u_format [OF ea(2)]
    using assms lb eb by (simp add: decode_format_04x)
  then show ?thesis by (simp add: ea eb j)
qed

lemma safe_after_escape:
  assumes "\<not> low_surrogate b"
  shows "take 2 (escape_char b @ R) \<noteq> [0x5c, 0x75] \<or>
    (\<exists>m. decode_uXXXX (drop 2 (escape_char b @ R)) = Some m \<and> \<not> low_surrogate m)"
proof (cases b rule: escape_cases)
  case plain
  then show ?thesis by simp
next
  case (short e)
  then show ?thesis by simp
next
  case u
  then show ?thesis using assms by (simp add: decode_format_04x)
next
  case pair
  have "0xd800 + (b - 0x10000) div 1024 mod 1024 < (0x10000::nat)" by simp
  moreover have "\<not> low_surrogate (0xd800 + (b - 0x10000) div 1024 mod 1024)"
    by (simp add: low_surrogate_def)
  ultimately show ?thesis using pair by (simp add: decode_format_04x)
qed

lemma append_chunk_Some: "append_chunk c (Some (s, r)) = Some (c # s, r)"
  by (simp add: append_chunk_def)

lemma scan_single:
  assumes "v < 0x110000"
  shows "scanstring (escape_char v @ 0x22 # tail) = Some ([v], tail)"
proof -
  have "scanstring (escape_char v @ (0x22 # tail)) = append_chunk v (scanstring (0x22 # tail))"
    using assms by (rule scan_one) simp
  then show ?thesis by (simp add: scan_quote append_chunk_Some)
qed

lemma scan_escaped:
  "is_str s \<Longrightarrow>
   scanstring (concat (map escape_char s) @ 0x22 # tail) = Some (join_surrogates s, tail)"
proof (induction s rule: join_surrogates.induct)
  case (1 a b cs)
  show ?case
  proof (cases "high_surrogate a \<and> low_surrogate b")
    case True
    with "1.prems" have "is_str cs" by (simp add: is_str_def)
    with "1.IH"(1) True
    have ih: "scanstring (concat (map escape_char cs) @ 0x22 # tail) = Some (join_surrogates cs, tail)"
      by simp
    have "scanstring (escape_char a @ escape_char b @ (concat (map escape_char cs) @ 0x22 # tail)) =
      append_chunk (0x10000 + (a - 0xd800) * 0x400 + (b - 0xdc00))
        (scanstring (concat (map escape_char cs) @ 0x22 # tail))"
      using True by (intro scan_pair) simp_all
    moreover have "join_surrogates (a # b # cs) =
        (0x10000 + (a - 0xd800) * 0x400 + (b - 0xdc00)) # join_surrogates cs"
      using True by simp
    ultimately show ?thesis using ih by (simp add: append_chunk_Some del: join_surrogates.simps)
  next
    case False
    from "1.prems" have a: "a < 0x110000" and "is_str (b # cs)" by (simp_all add: is_str_def)
    with "1.IH"(2) False
    have ih: "scanstring (concat (map escape_char (b # cs)) @ 0x22 # tail)
        = Some (join_surrogates (b # cs), tail)"
      by simp
    have safe: "take 2 (concat (map escape_char (b # cs)) @ 0x22 # tail) \<noteq> [0x5c, 0x75] \<or>
      (\<exists>m. decode_uXXXX (drop 2 (concat (map escape_char (b # cs)) @ 0x22 # tail)) = Some m
           \<and> \<not> low_surrogate m)"
      if "high_surrogate a"
    proof -
      from that False have "\<not> low_surrogate b" by simp
      from safe_after_escape [OF this, of "concat (map escape_char cs) @ 0x22 # tail"]
      show ?thesis by simp
    qed
    have "scanstring (escape_char a @ (concat (map escape_char (b # cs)) @ 0x22 # tail)) =
      append_chunk a (scanstring (concat (map escape_char (b # cs)) @ 0x22 # tail))"
      using a safe by (rule scan_one)
    moreover have "join_surrogates (a # b # cs) = a # join_surrogates (b # cs)"
      using False by auto
    ultimately show ?thesis using ih by (simp add: append_chunk_Some del: join_surrogates.simps)
  qed
qed (simp_all add: is_str_def scan_quote scan_single)

lemma escape_joined:
  assumes "high_surrogate a" "low_surrogate b"
  shows "escape_char (0x10000 + (a - 0xd800) * 0x400 + (b - 0xdc00)) = escape_char a @ escape_char b"
proof -
  define x where "x = a - 0xd800"
  define y where "y = b - 0xdc00"
  have x: "x < 1024" "a = 0xd800 + x"
    using assms(1) unfolding high_surrogate_def x_def by linarith+
  have y: "y < 1024" "b = 0xdc00 + y"
    using assms(2) unfolding low_surrogate_def y_def by linarith+
  have "(x * 1024 + y) div 1024 mod 1024 = x" "(x * 1024 + y) mod 1024 = y"
    using x(1) y(1) by simp_all
  then have "escape_char (0x10000 + x * 0x400 + y) =
      [0x5c, 0x75] @ format_04x (0xd800 + x) @ [0x5c, 0x75] @ format_04x (0xdc00 + y)"
    using escape_pair [of "0x10000 + x * 0x400 + y"] by (simp add: add.assoc)
  moreover have "escape_char a = [0x5c, 0x75] @ format_04x a"
    "escape_char b = [0x5c, 0x75] @ format_04x b"
    using surrogate_escape assms by blast+
  ultimately show ?thesis
    using x(2) y(2) unfolding x_def [symmetric] y_def [symmetric] by simp
qed

lemma escape_join_surrogates:
  "concat (map escape_char (join_surrogates s)) = concat (map escape_char s)"
  by (induction s rule: join_surrogates.induct) (simp_all add: escape_joined)

lemma join_no_surrogates: "no_surrogates s \<Longrightarrow> join_surrogates s = s"
  by (induction s rule: join_surrogates.induct) (simp_all add: no_surrogates_def)

lemma is_str_join: "is_str s \<Longrightarrow> is_str (join_surrogates s)"
proof (induction s rule: join_surrogates.induct)
  case (1 a b cs)
  show ?case
  proof (cases "high_surrogate a \<and> low_surrogate b")
    case True
    then have "0x10000 + (a - 0xd800) * 0x400 + (b - 0xdc00) < (0x110000::nat)"
      unfolding high_surrogate_def low_surrogate_def by linarith
    moreover from 1 True have "is_str (join_surrogates cs)" by (simp add: is_str_def)
    moreover have "join_surrogates (a # b # cs) =
        (0x10000 + (a - 0xd800) * 0x400 + (b - 0xdc00)) # join_surrogates cs"
      using True by simp
    ultimately show ?thesis by (simp add: is_str_def del: join_surrogates.simps)
  next
    case False
    then have "join_surrogates (a # b # cs) = a # join_surrogates (b # cs)" by auto
    moreover from 1 False have "is_str (join_surrogates (b # cs))" "a < 0x110000"
      by (simp_all add: is_str_def)
    ultimately show ?thesis by (simp add: is_str_def del: join_surrogates.simps)
  qed
qed simp_all

subsection \<open>Documents\<close>






lemma encode_join_surrogates:
  "py_encode_basestring_ascii (join_surrogates s) = py_encode_basestring_ascii s"
  by (simp add: py_encode_basestring_ascii_def escape_join_surrogates)

lemma json_dumps_single:
  "json_dumps [(k, v)] =
     0x7b # 0x22 # concat (map escape_char k) @ 0x22 # 0x3a # 0x20 # 0x22 #
       concat (map escape_char v) @ [0x22, 0x7d]"
  by (simp add: json_dumps_def py_encode_basestring_ascii_def)

lemma WHITESPACE_simps:
  "WHITESPACE [] = []"
  "WHITESPACE (0x20 # r) = WHITESPACE r"
  "WHITESPACE (0x0a # r) = WHITESPACE r"
  "c \<noteq> 0x20 \<Longrightarrow> c \<noteq> 0x09 \<Longrightarrow> c \<noteq> 0x0a \<Longrightarrow> c \<noteq> 0x0d \<Longrightarrow> WHITESPACE (c # r) = c # r"
  by (simp_all add: WHITESPACE_def)

lemma members_single:
  assumes "is_str k" "is_str v"
  shows "members (concat (map escape_char k) @ 0x22 # 0x3a # 0x20 # 0x22 #
           concat (map escape_char v) @ 0x22 # 0x7d # rest)
         = Some ([(join_surrogates k, join_surrogates v)], rest)"
proof -
  have 1: "scanstring (concat (map escape_char k) @ 0x22 # 0x3a # 0x20 # 0x22 #
           concat (map escape_char v) @ 0x22 # 0x7d # rest)
      = Some (join_surrogates k, 0x3a # 0x20 # 0x22 # concat (map escape_char v) @ 0x22 # 0x7d # rest)"
    using assms(1) by (rule scan_escaped)
  have 2: "expect 0x3a (0x3a # 0x20 # 0x22 # concat (map escape_char v) @ 0x22 # 0x7d # rest)
      = Some (0x20 # 0x22 # concat (map escape_char v) @ 0x22 # 0x7d # rest)"
    by (simp add: expect_def WHITESPACE_simps)
  have 3: "expect 0x22 (0x20 # 0x22 # concat (map escape_char v) @ 0x22 # 0x7d # rest)
      = Some (concat (map escape_char v) @ 0x22 # 0x7d # rest)"
    by (simp add: expect_def WHITESPACE_simps)
  have 4: "scanstring (concat (map escape_char v) @ 0x22 # 0x7d # rest)
      = Some (join_surrogates v, 0x7d # rest)"
    using assms(2) by (rule scan_escaped)
  have 5: "WHITESPACE (0x7d # rest) = 0x7d # rest"
    by (simp add: WHITESPACE_simps)
  show ?thesis
    by (subst members.simps) (simp add: 1 2 3 4 5)
qed

lemma loads_dumps_single:
  assumes "is_str k" "is_str v"
  shows "json_loads (json_dumps [(k, v)] @ [0x0a]) = Some [(join_surrogates k, join_surrogates v)]"
proof -
  have "JSONObject (0x22 # concat (map escape_char k) @ 0x22 # 0x3a # 0x20 # 0x22 #
          concat (map escape_char v) @ 0x22 # 0x7d # [0x0a])
      = Some ([(join_surrogates k, join_surrogates v)], [0x0a])"
    by (simp add: JSONObject_def WHITESPACE_simps members_single [OF assms])
  then show ?thesis
    by (simp add: json_loads_def json_dumps_single WHITESPACE_simps dict_of_pairs_def)
qed

lemma key_facts:
  "is_str (str_of ''ascii_art'')" "no_surrogates (str_of ''ascii_art'')"
  "join_surrogates (str_of ''ascii_art'') = str_of ''ascii_art''"
  by (simp_all add: str_of_def is_str_def no_surrogates_def high_surrogate_def low_surrogate_def)

subsection \<open>The claims about a run with an argument\<close>

lemma serialize_eq: "serialize art = json_dumps [(str_of ''ascii_art'', art)]"
  by (simp add: serialize_def json_dumps_def str_of_def)

lemmas eval_dumps =
  json_dumps_def py_encode_basestring_ascii_def escape_char_def ESCAPE_ASCII_def replace_def
  ESCAPE_DCT_def str_of_def

text \<open>
  C1. Invoked with exactly one argument \<open>s\<close> (any string), on which the renderer returns
  \<open>art\<close>, the program writes to standard output the \<open>json.dumps\<close> serialisation of the
  dictionary whose single key \<open>"ascii_art"\<close> maps to \<open>art\<close>, followed by the newline of
  \<open>print\<close>, and exits with status 0.
\<close>

theorem output_is_serialized_rendering:
  assumes "argv iv = [prog, s]" and "render s = Inr art"
  shows "stdout (main render iv) = json_dumps [(str_of ''ascii_art'', art)] @ [0x0a] \<and>
         exit_status (main render iv) = 0"
  using assms by (simp add: main_success exit_status_def initial_def)

theorem output_is_serialized_rendering_witness:
  "stdout (main (\<lambda>s. Inr (s @ [0x0a]) :: unit + pystr)
      \<lparr>argv = [str_of ''main.py'', str_of ''HI''], environ = Map.empty\<rparr>)
   = [0x7b, 0x22, 0x61, 0x73, 0x63, 0x69, 0x69, 0x5f, 0x61, 0x72, 0x74, 0x22, 0x3a, 0x20,
      0x22, 0x48, 0x49, 0x5c, 0x6e, 0x22, 0x7d, 0x0a]"
  using output_is_serialized_rendering
    [of "\<lparr>argv = [str_of ''main.py'', str_of ''HI''], environ = Map.empty\<rparr>"
        "str_of ''main.py''" "str_of ''HI''" "\<lambda>s. Inr (s @ [0x0a]) :: unit + pystr"
        "str_of ''HI'' @ [0x0a]"]
  by (simp add: eval_dumps)

text \<open>
  C4. If the renderer raises on the given input, the exception propagates: the exit
  status is not zero, nothing at all has been written to standard output, and the
  renderer has been called once (no retry).
\<close>

theorem rendering_fault_all_or_nothing:
  assumes "1 < length (argv iv)" and "render (argv iv ! 1) = Inl e"
  shows "stdout (main render iv) = [] \<and> exit_status (main render iv) \<noteq> 0 \<and>
         raised (main render iv) = Some (RenderingFault e) \<and>
         render_calls (main render iv) = [argv iv ! 1]"
  using assms by (simp add: main_render_fault exit_status_def initial_def)

theorem rendering_fault_all_or_nothing_witness:
  "stdout (main (\<lambda>s. Inl ''unsupported'' :: string + pystr)
      \<lparr>argv = [str_of ''main.py'', str_of ''HI''], environ = Map.empty\<rparr>) = [] \<and>
   exit_status (main (\<lambda>s. Inl ''unsupported'' :: string + pystr)
      \<lparr>argv = [str_of ''main.py'', str_of ''HI''], environ = Map.empty\<rparr>) = 1"
  using rendering_fault_all_or_nothing
    [of "\<lparr>argv = [str_of ''main.py'', str_of ''HI''], environ = Map.empty\<rparr>"
        "\<lambda>s. Inl ''unsupported'' :: string + pystr" "''unsupported''"]
  by (simp add: exit_status_def)

text \<open>
  C5. On a successful run, parsing the document on standard output and serialising the
  parsed object again gives back the very text that was written.
\<close>

theorem output_round_trips:
  assumes "1 < length (argv iv)" and "render (argv iv ! 1) = Inr art" and "is_str art"
  shows "\<exists>d. json_loads (stdout (main render iv)) = Some d \<and>
             json_dumps d @ [0x0a] = stdout (main render iv)"
proof -
  let ?k = "str_of ''ascii_art''"
  have out: "stdout (main render iv) = json_dumps [(?k, art)] @ [0x0a]"
    using assms by (simp add: main_success initial_def)
  have "json_loads (stdout (main render iv)) = Some [(?k, join_surrogates art)]"
    using loads_dumps_single [OF key_facts(1) assms(3)] by (simp add: out key_facts(3))
  moreover have "json_dumps [(?k, join_surrogates art)] = json_dumps [(?k, art)]"
    by (simp add: json_dumps_def encode_join_surrogates)
  ultimately show ?thesis by (simp add: out)
qed

theorem output_round_trips_witness:
  "\<exists>d. json_loads (stdout (main (\<lambda>s. Inr [0xd83d, 0xde00, 0x0a] :: unit + pystr)
           \<lparr>argv = [str_of ''main.py'', str_of ''HI''], environ = Map.empty\<rparr>)) = Some d \<and>
       json_dumps d @ [0x0a] = stdout (main (\<lambda>s. Inr [0xd83d, 0xde00, 0x0a] :: unit + pystr)
           \<lparr>argv = [str_of ''main.py'', str_of ''HI''], environ = Map.empty\<rparr>)"
  using output_round_trips
    [of "\<lparr>argv = [str_of ''main.py'', str_of ''HI''], environ = Map.empty\<rparr>"
        "\<lambda>s. Inr [0xd83d, 0xde00, 0x0a] :: unit + pystr" "[0xd83d, 0xde00, 0x0a]"]
  by (simp add: is_str_def)

lemma main_depends_on_first_argument:
  "1 < length (argv iv) \<Longrightarrow> 1 < length (argv iv') \<Longrightarrow> argv iv ! 1 = argv iv' ! 1 \<Longrightarrow>
   main render iv = main render iv'"
  by (simp add: main_def seq_def assign_text_def)



text \<open>
  C7. On one argument the program is the straight-line composition the specification
  describes: what is observed of a run (standard output, exit status, the calls made to
  the renderer) is what the reference function gives, whether the renderer returns or
  raises; in both cases the renderer is called exactly once, on \<open>argv[1]\<close>.
\<close>

theorem main_refines_reference:
  assumes "argv iv = [prog, s]"
  shows "observed (main render iv) = reference render s"
proof (cases "render s")
  case (Inl e)
  with assms show ?thesis
    by (simp add: observed_def reference_def main_render_fault exit_status_def initial_def)
next
  case (Inr art)
  with assms show ?thesis
    by (simp add: observed_def reference_def main_success exit_status_def initial_def
        serialize_eq)
qed

theorem main_refines_reference_witness:
  "observed (main (\<lambda>s. Inr (s @ [0x0a]) :: unit + pystr)
      \<lparr>argv = [str_of ''main.py'', str_of ''HI''], environ = Map.empty\<rparr>)
   = ([0x7b, 0x22, 0x61, 0x73, 0x63, 0x69, 0x69, 0x5f, 0x61, 0x72, 0x74, 0x22, 0x3a, 0x20,
       0x22, 0x48, 0x49, 0x5c, 0x6e, 0x22, 0x7d, 0x0a], 0, [[0x48, 0x49]])"
  using main_refines_reference
    [of "\<lparr>argv = [str_of ''main.py'', str_of ''HI''], environ = Map.empty\<rparr>"
        "str_of ''main.py''" "str_of ''HI''" "\<lambda>s. Inr (s @ [0x0a]) :: unit + pystr"]
  by (simp add: reference_def serialize_def py_encode_basestring_ascii_def escape_char_def
      ESCAPE_ASCII_def replace_def ESCAPE_DCT_def str_of_def)

text \<open>
  C8. For the empty string as argument, provided the renderer returns a string for it,
  the program exits with status 0 and its output is valid JSON: an object with the single
  key \<open>"ascii_art"\<close> whose value is what the renderer returned, whatever that is (read
  back unchanged when it holds no surrogate code points, and with adjacent surrogate
  pairs joined otherwise).
\<close>

theorem empty_input_gives_valid_json:
  assumes "argv iv = [prog, []]" and "render [] = Inr art" and "is_str art"
  shows "exit_status (main render iv) = 0 \<and>
         json_loads (stdout (main render iv)) = Some [(str_of ''ascii_art'', join_surrogates art)] \<and>
         (no_surrogates art \<longrightarrow>
            json_loads (stdout (main render iv)) = Some [(str_of ''ascii_art'', art)])"
  using assms loads_dumps_single [OF key_facts(1) assms(3)]
  by (simp add: main_success initial_def exit_status_def key_facts(3) join_no_surrogates)

theorem empty_input_gives_valid_json_witness:
  "exit_status (main (\<lambda>s. Inr s :: unit + pystr)
      \<lparr>argv = [str_of ''main.py'', []], environ = Map.empty\<rparr>) = 0 \<and>
   json_loads (stdout (main (\<lambda>s. Inr s :: unit + pystr)
      \<lparr>argv = [str_of ''main.py'', []], environ = Map.empty\<rparr>)) = Some [(str_of ''ascii_art'', [])]"
  using empty_input_gives_valid_json
    [of "\<lparr>argv = [str_of ''main.py'', []], environ = Map.empty\<rparr>" "str_of ''main.py''"
        "\<lambda>s. Inr s :: unit + pystr" "[]"]
  by (simp add: is_str_def no_surrogates_def)

subsection \<open>What the output depends on\<close>

text \<open>
  C9. Arguments after the first are ignored: two invocations with the same first argument
  end in the same state (same standard output, same exit status), whatever further
  arguments either of them carries.
\<close>

theorem extra_arguments_ignored:
  assumes "argv iv = prog # s # extra" and "argv iv' = prog' # s # extra'"
  shows "main render iv = main render iv'"
  using assms by (intro main_depends_on_first_argument) simp_all

theorem extra_arguments_ignored_witness:
  "main (\<lambda>s. Inr (s @ [0x0a]) :: unit + pystr)
      \<lparr>argv = [str_of ''main.py'', str_of ''HI'', str_of ''--font'', str_of ''slant''],
       environ = Map.empty\<rparr>
   = main (\<lambda>s. Inr (s @ [0x0a]))
      \<lparr>argv = [str_of ''main.py'', str_of ''HI''], environ = Map.empty\<rparr>"
  using extra_arguments_ignored
    [of "\<lparr>argv = [str_of ''main.py'', str_of ''HI'', str_of ''--font'', str_of ''slant''],
          environ = Map.empty\<rparr>"
        "str_of ''main.py''" "str_of ''HI''" "[str_of ''--font'', str_of ''slant'']"
        "\<lparr>argv = [str_of ''main.py'', str_of ''HI''], environ = Map.empty\<rparr>"
        "str_of ''main.py''" "[]" "\<lambda>s. Inr (s @ [0x0a]) :: unit + pystr"]
  by simp






end
